theory Spec2Isabelle
  imports Complex_Main "HOL-Library.Multiset"
begin

section \<open>Data model\<close>

text \<open>
  Python floats are modelled as exact reals: the development covers the decision logic
  (which scenes survive, in which order, how ranges are padded and joined), not rounding,
  infinities or NaN.  Frame indices are natural numbers, as the counter of the source is.
\<close>

datatype error = ValueError | ZeroDivisionError | KeyError | OSError

text \<open>A highlight is the tuple \<open>(start_sec, end_sec, score)\<close> of \<open>highlight.py\<close>.\<close>

type_synonym highlight = "real \<times> real \<times> real"

definition start_sec :: "highlight \<Rightarrow> real" where
  "start_sec h = fst h"

definition end_sec :: "highlight \<Rightarrow> real" where
  "end_sec h = fst (snd h)"

definition score :: "highlight \<Rightarrow> real" where
  "score h = snd (snd h)"

text \<open>
  What \<open>cv2.VideoCapture\<close> gives back for a path: whether it opened, the frame rate it
  reports, and the frames that \<open>cap.read()\<close> delivers before it first returns
  \<open>ret = False\<close>.
\<close>

record 'f capture =
  isOpened :: bool
  prop_fps :: real
  frames :: "'f list"

text \<open>
  The OpenCV operations the detector calls are collaborators outside the repository; they
  are parameters of the model.  \<open>calcHist\<close> stands for the 64-bin histogram after
  \<open>normalize\<close> and \<open>flatten\<close>, \<open>compareHist\<close> for the Bhattacharyya distance,
  \<open>flowMagnitude\<close> for the mean magnitude of the Farneback flow between two grey frames.
\<close>

record ('f, 'g, 'h) cv2 =
  VideoCapture :: "string \<Rightarrow> 'f capture"
  cvtColor :: "'f \<Rightarrow> 'g"
  calcHist :: "'g \<Rightarrow> 'h"
  compareHist :: "'h \<Rightarrow> 'h \<Rightarrow> real"
  flowMagnitude :: "'g \<Rightarrow> 'g \<Rightarrow> real"

section \<open>Python list primitives\<close>

text \<open>A slice bound, as Python normalises it against a list of length \<open>n\<close>.\<close>

definition py_bound :: "nat \<Rightarrow> int \<Rightarrow> nat" where
  "py_bound n i = (if i < 0 then nat (max 0 (int n + i)) else min n (nat i))"

text \<open>\<open>xs[a:b]\<close>.\<close>

definition py_slice :: "'a list \<Rightarrow> int \<Rightarrow> int \<Rightarrow> 'a list" where
  "py_slice xs a b = drop (py_bound (length xs) a) (take (py_bound (length xs) b) xs)"

text \<open>\<open>xs[:k]\<close>.\<close>

definition py_prefix :: "'a list \<Rightarrow> int \<Rightarrow> 'a list" where
  "py_prefix xs k = take (py_bound (length xs) k) xs"

text \<open>\<open>numpy.mean\<close> of a non-empty list of floats.\<close>

definition np_mean :: "real list \<Rightarrow> real" where
  "np_mean xs = sum_list xs / real (length xs)"

section \<open>highlight.py: the frame loop\<close>

record ('g, 'h) scan_state =
  prev_gray :: "'g option"
  prev_hist :: "'h option"
  frame_idx :: nat
  scenes :: "nat list"
  motion_scores :: "real list"

definition init_state :: "('g, 'h) scan_state" where
  "init_state = \<lparr>prev_gray = None, prev_hist = None, frame_idx = 0, scenes = [0],
     motion_scores = []\<rparr>"

text \<open>One pass of the body of \<open>while True\<close> for a frame that was read.\<close>

definition scan_step ::
  "('f, 'g, 'h) cv2 \<Rightarrow> ('g, 'h) scan_state \<Rightarrow> 'f \<Rightarrow> ('g, 'h) scan_state" where
  "scan_step cv st frame =
     (let gray = cvtColor cv frame;
          hist = calcHist cv gray;
          scenes' = (case prev_hist st of
                       None \<Rightarrow> scenes st
                     | Some ph \<Rightarrow>
                         if compareHist cv ph hist > 0.5 then scenes st @ [frame_idx st]
                         else scenes st);
          motion' = (case prev_gray st of
                       None \<Rightarrow> motion_scores st
                     | Some pg \<Rightarrow> motion_scores st @ [flowMagnitude cv pg gray])
      in \<lparr>prev_gray = Some gray, prev_hist = Some hist, frame_idx = frame_idx st + 1,
          scenes = scenes', motion_scores = motion'\<rparr>)"

fun scan_frames ::
  "('f, 'g, 'h) cv2 \<Rightarrow> ('g, 'h) scan_state \<Rightarrow> 'f list \<Rightarrow> ('g, 'h) scan_state" where
  "scan_frames cv st [] = st"
| "scan_frames cv st (frame # rest) = scan_frames cv (scan_step cv st frame) rest"

text \<open>The list \<open>scenes\<close> after \<open>scenes.append(frame_idx)\<close> behind the loop.\<close>

definition scene_boundaries :: "('f, 'g, 'h) cv2 \<Rightarrow> 'f list \<Rightarrow> nat list" where
  "scene_boundaries cv fs =
     (let st = scan_frames cv init_state fs in scenes st @ [frame_idx st])"

text \<open>\<open>zip(scenes[:-1], scenes[1:])\<close>.\<close>

definition scene_pairs :: "nat list \<Rightarrow> (nat \<times> nat) list" where
  "scene_pairs bs = zip (butlast bs) (tl bs)"

section \<open>highlight.py: scoring, filtering, ranking\<close>

text \<open>Lines 65 and 66: the motion slice of a scene and its mean.\<close>

definition seg_motion :: "real list \<Rightarrow> nat \<Rightarrow> nat \<Rightarrow> real list" where
  "seg_motion motion s e =
     (if motion \<noteq> [] then py_slice motion (int s) (max (int s) (int e - 1)) else [])"

definition scene_score :: "real list \<Rightarrow> nat \<Rightarrow> nat \<Rightarrow> real" where
  "scene_score motion s e =
     (if seg_motion motion s e \<noteq> [] then np_mean (seg_motion motion s e) else 0.0)"

text \<open>
  The \<open>for s, e in zip(...)\<close> loop.  A float division by \<open>fps = 0\<close> raises
  \<open>ZeroDivisionError\<close> in the first pass.
\<close>

fun collect_highlights ::
  "real \<Rightarrow> real \<Rightarrow> real \<Rightarrow> real list \<Rightarrow> (nat \<times> nat) list \<Rightarrow> error + highlight list" where
  "collect_highlights fps min_scene_len_sec motion_threshold motion [] = Inr []"
| "collect_highlights fps min_scene_len_sec motion_threshold motion ((s, e) # rest) =
     (if fps = 0 then Inl ZeroDivisionError
      else
        (case collect_highlights fps min_scene_len_sec motion_threshold motion rest of
           Inl err \<Rightarrow> Inl err
         | Inr hs \<Rightarrow>
             if real e / fps - real s / fps < min_scene_len_sec then Inr hs
             else if scene_score motion s e \<ge> motion_threshold * 0.1
               then Inr ((real s / fps, real e / fps, scene_score motion s e) # hs)
               else Inr hs))"

text \<open>
  \<open>highlights.sort(key=lambda x: x[2], reverse=True)\<close>: Python's sort is stable, and
  with \<open>reverse=True\<close> elements of equal key keep their order.
\<close>

definition sort_by_score_desc :: "highlight list \<Rightarrow> highlight list" where
  "sort_by_score_desc hs = sort_key (\<lambda>h. - score h) hs"

definition effective_fps :: "real \<Rightarrow> real \<Rightarrow> real" where
  "effective_fps fps fps_fallback = (if fps = 0 \<or> fps \<le> 0 then fps_fallback else fps)"

text \<open>The highlights in scene order, before the sort (lines 24 to 68).\<close>

definition scene_highlights ::
  "('f, 'g, 'h) cv2 \<Rightarrow> 'f capture \<Rightarrow> real \<Rightarrow> real \<Rightarrow> real \<Rightarrow> error + highlight list" where
  "scene_highlights cv cap min_scene_len_sec motion_threshold fps_fallback =
     (let fps = effective_fps (prop_fps cap) fps_fallback;
          st = scan_frames cv init_state (frames cap)
      in collect_highlights fps min_scene_len_sec motion_threshold (motion_scores st)
           (scene_pairs (scene_boundaries cv (frames cap))))"

definition detect_scenes_and_highlights ::
  "('f, 'g, 'h) cv2 \<Rightarrow> string \<Rightarrow> real \<Rightarrow> real \<Rightarrow> real \<Rightarrow> error + highlight list" where
  "detect_scenes_and_highlights cv video_path min_scene_len_sec motion_threshold fps_fallback =
     (let cap = VideoCapture cv video_path in
      if \<not> isOpened cap then Inr []
      else
        (case scene_highlights cv cap min_scene_len_sec motion_threshold fps_fallback of
           Inl err \<Rightarrow> Inl err
         | Inr hs \<Rightarrow> Inr (sort_by_score_desc hs)))"

section \<open>transitions.py\<close>

text \<open>
  The clip opened by \<open>VideoFileClip(str(video_path))\<close>; only its duration is read.
\<close>

record video_file =
  path :: string
  duration :: real

text \<open>
  The clips the pipeline builds: the opened file itself, a sub-range of it, and
  \<open>concatenate_videoclips(segments, method="compose", padding=p)\<close>.  MoviePy is a
  collaborator outside the repository, so its clips are constructors that keep the
  arguments of the call.  A negative padding \<open>p\<close> makes neighbours overlap by \<open>- p\<close>
  seconds, the padding \<open>0\<close> of the default puts them back to back.
\<close>

datatype clip =
    FileClip video_file
  | Subclip video_file real real
  | Concatenate "clip list" real

text \<open>\<open>str.lower()\<close> on ASCII text.\<close>

definition lower_char :: "char \<Rightarrow> char" where
  "lower_char c =
     (case map_of (zip ''ABCDEFGHIJKLMNOPQRSTUVWXYZ'' ''abcdefghijklmnopqrstuvwxyz'') c of
        None \<Rightarrow> c
      | Some d \<Rightarrow> d)"

definition lower :: "string \<Rightarrow> string" where
  "lower s = map lower_char s"

text \<open>\<open>kind or "crossfade"\<close>: \<open>None\<close> and the empty string are falsy.\<close>

definition kind_or_crossfade :: "string option \<Rightarrow> string" where
  "kind_or_crossfade kind =
     (case kind of None \<Rightarrow> ''crossfade'' | Some k \<Rightarrow> if k = [] then ''crossfade'' else k)"

definition apply_transitions :: "clip list \<Rightarrow> string option \<Rightarrow> real \<Rightarrow> error + clip" where
  "apply_transitions segments kind dur =
     (if segments = [] then Inl ValueError
      else if length segments = 1 then Inr (segments ! 0)
      else
        (let kind' = lower (kind_or_crossfade kind) in
         if kind' \<in> {''crossfade'', ''fade''} then Inr (Concatenate segments (- dur))
         else Inr (Concatenate segments 0)))"

text \<open>The overlap of neighbouring segments in a joined clip.\<close>

fun overlap :: "clip \<Rightarrow> real" where
  "overlap (Concatenate segs p) = - p"
| "overlap c = 0"

section \<open>pipeline.py\<close>

text \<open>
  \<open>clip.subclip(t_start, t_end)\<close> of MoviePy 1.x on a clip with a duration: a negative
  start counts from the end, and a start beyond the duration raises \<open>ValueError\<close>.
  Otherwise the call gives the sub-range, recorded here with the arguments of the call.
\<close>

definition subclip :: "video_file \<Rightarrow> real \<Rightarrow> real \<Rightarrow> error + clip" where
  "subclip clip t_start t_end =
     (if (if t_start < 0 then duration clip + t_start else t_start) > duration clip
      then Inl ValueError
      else Inr (Subclip clip t_start t_end))"

text \<open>
  The \<open>for s, e, _ in selected\<close> loop of \<open>_build_sequence\<close>: the first call of
  \<open>subclip\<close> that raises ends it.
\<close>

fun build_segments :: "video_file \<Rightarrow> real \<Rightarrow> highlight list \<Rightarrow> error + clip list" where
  "build_segments clip pad [] = Inr []"
| "build_segments clip pad ((s, e, _) # rest) =
     (case subclip clip (max 0.0 (s - pad)) (min (duration clip) (e + pad)) of
        Inl err \<Rightarrow> Inl err
      | Inr seg \<Rightarrow>
          (case build_segments clip pad rest of
             Inl err \<Rightarrow> Inl err
           | Inr segs \<Rightarrow> Inr (seg # segs)))"

text \<open>
  \<open>_build_sequence\<close>.  \<open>open_clip\<close> stands for \<open>VideoFileClip\<close>: it gives the opened
  file, or \<open>None\<close> for a path it cannot read, where the constructor raises \<open>OSError\<close>.
  \<open>top_k\<close> is a Python int, so a negative value cuts from the end.
\<close>

definition build_sequence ::
  "(string \<Rightarrow> video_file option) \<Rightarrow> string \<Rightarrow> highlight list \<Rightarrow> int \<Rightarrow> real \<Rightarrow>
     error + (video_file \<times> clip list)" where
  "build_sequence open_clip video_path highlights top_k pad =
     (case open_clip video_path of
        None \<Rightarrow> Inl OSError
      | Some clip \<Rightarrow>
          (case build_segments clip pad (py_prefix highlights top_k) of
             Inl err \<Rightarrow> Inl err
           | Inr segments \<Rightarrow> Inr (clip, if segments = [] then [FileClip clip] else segments)))"

text \<open>
  A video item of the metadata: its file and, when given, its list of trims, each a
  dictionary read with \<open>t["start"]\<close> and \<open>t["end"]\<close>.
\<close>

record video_item =
  item_file :: string
  trims :: "(string \<rightharpoonup> real) list option"

record app_config =
  highlight_min_scene_len :: real
  highlight_motion_threshold :: real
  highlight_top_k :: int
  transitions_default :: "string option"
  transitions_duration :: real

text \<open>\<open>[(t["start"], t["end"], 1.0) for t in trims]\<close>; a missing key raises.\<close>

fun trims_to_highlights :: "(string \<rightharpoonup> real) list \<Rightarrow> error + highlight list" where
  "trims_to_highlights [] = Inr []"
| "trims_to_highlights (t # ts) =
     (case t ''start'' of
        None \<Rightarrow> Inl KeyError
      | Some s \<Rightarrow>
          (case t ''end'' of
             None \<Rightarrow> Inl KeyError
           | Some e \<Rightarrow>
               (case trims_to_highlights ts of
                  Inl err \<Rightarrow> Inl err
                | Inr hs \<Rightarrow> Inr ((s, e, 1.0) # hs))))"

text \<open>Lines 64 and 65 of \<open>process_single_video\<close>.\<close>

definition substitute_trims :: "highlight list \<Rightarrow> video_item \<Rightarrow> error + highlight list" where
  "substitute_trims highlights item =
     (case trims item of
        None \<Rightarrow> Inr highlights
      | Some ts \<Rightarrow>
          if highlights = [] \<and> ts \<noteq> [] then trims_to_highlights ts else Inr highlights)"

text \<open>
  Lines 59 to 69 of \<open>process_single_video\<close>, which run once the file is known to exist:
  detection with the default \<open>fps_fallback\<close>, the substitution of trims, the assembly with
  the default pad and the join.  The result is \<open>(highlights, base_clip, segments, seq_clip)\<close>.
\<close>

definition process_single_video_sequence ::
  "('f, 'g, 'h) cv2 \<Rightarrow> (string \<Rightarrow> video_file option) \<Rightarrow> app_config \<Rightarrow> video_item \<Rightarrow>
     error + (highlight list \<times> video_file \<times> clip list \<times> clip)" where
  "process_single_video_sequence cv open_clip config item =
     (case detect_scenes_and_highlights cv (item_file item) (highlight_min_scene_len config)
             (highlight_motion_threshold config) 30.0 of
        Inl err \<Rightarrow> Inl err
      | Inr detected \<Rightarrow>
          (case substitute_trims detected item of
             Inl err \<Rightarrow> Inl err
           | Inr highlights \<Rightarrow>
               (case build_sequence open_clip (item_file item) highlights
                       (highlight_top_k config) 0.25 of
                  Inl err \<Rightarrow> Inl err
                | Inr (base_clip, segments) \<Rightarrow>
                    (case apply_transitions segments (transitions_default config)
                            (transitions_duration config) of
                       Inl err \<Rightarrow> Inl err
                     | Inr seq_clip \<Rightarrow> Inr (highlights, base_clip, segments, seq_clip)))))"

section \<open>The scoring rule in the words of the specification\<close>

text \<open>
  The motion series is indexed from 0; entry \<open>k\<close> is the magnitude measured between
  frames \<open>k\<close> and \<open>k + 1\<close>.  These are the magnitudes whose index falls in
  \<open>[s, e - 1)\<close>, in order.
\<close>

definition motion_in_range :: "real list \<Rightarrow> nat \<Rightarrow> nat \<Rightarrow> real list" where
  "motion_in_range motion s e =
     map (\<lambda>k. motion ! k) (filter (\<lambda>k. k < length motion) [s ..< e - 1])"

text \<open>Their arithmetic mean, and 0 when there is none.\<close>

definition mean_motion_in_range :: "real list \<Rightarrow> nat \<Rightarrow> nat \<Rightarrow> real" where
  "mean_motion_in_range motion s e =
     (if motion_in_range motion s e = [] then 0
      else sum_list (motion_in_range motion s e) / real (length (motion_in_range motion s e)))"

section \<open>Intermediate values of the detector\<close>

text \<open>
  The tuple that the loop of lines 60 to 68 appends for a scene, and the two tests a scene
  has to pass for it.
\<close>

definition scene_candidate :: "real \<Rightarrow> real list \<Rightarrow> nat \<times> nat \<Rightarrow> highlight" where
  "scene_candidate fps motion p =
     (real (fst p) / fps, real (snd p) / fps, scene_score motion (fst p) (snd p))"

definition scene_kept :: "real \<Rightarrow> real \<Rightarrow> real \<Rightarrow> real list \<Rightarrow> nat \<times> nat \<Rightarrow> bool" where
  "scene_kept fps min_scene_len_sec motion_threshold motion p =
     (\<not> real (snd p) / fps - real (fst p) / fps < min_scene_len_sec \<and>
      scene_score motion (fst p) (snd p) \<ge> motion_threshold * 0.1)"

text \<open>
  The values the detector works with for an opened path: the frame rate after the
  fallback, the motion series of the frame loop, and the scenes
  \<open>zip(scenes[:-1], scenes[1:])\<close>.
\<close>

definition video_fps :: "('f, 'g, 'h) cv2 \<Rightarrow> string \<Rightarrow> real \<Rightarrow> real" where
  "video_fps cv video_path fps_fallback =
     effective_fps (prop_fps (VideoCapture cv video_path)) fps_fallback"

definition video_motion :: "('f, 'g, 'h) cv2 \<Rightarrow> string \<Rightarrow> real list" where
  "video_motion cv video_path =
     motion_scores (scan_frames cv init_state (frames (VideoCapture cv video_path)))"

definition video_scenes :: "('f, 'g, 'h) cv2 \<Rightarrow> string \<Rightarrow> (nat \<times> nat) list" where
  "video_scenes cv video_path =
     scene_pairs (scene_boundaries cv (frames (VideoCapture cv video_path)))"

section \<open>Concrete inputs\<close>

text \<open>
  Frames are grey levels, the histogram distance of two frames is a tenth of the distance
  of their grey levels and the motion magnitude is that distance.  \<open>a.mp4\<close> has eleven
  frames at one frame per second with cuts at frames 2, 4, 7 and 8; \<open>b.mp4\<close> has ten
  identical frames; no other path opens.
\<close>

definition toy_frames :: "nat list" where
  "toy_frames = [0, 2, 10, 14, 20, 22, 24, 40, 50, 50, 50]"

definition toy_cv :: "(nat, nat, nat) cv2" where
  "toy_cv = \<lparr>VideoCapture = (\<lambda>p.
                 if p = ''a.mp4'' then \<lparr>isOpened = True, prop_fps = 1, frames = toy_frames\<rparr>
                 else if p = ''b.mp4''
                   then \<lparr>isOpened = True, prop_fps = 1, frames = replicate 10 7\<rparr>
                 else \<lparr>isOpened = False, prop_fps = 0, frames = []\<rparr>),
             cvtColor = (\<lambda>f. f), calcHist = (\<lambda>g. g),
             compareHist = (\<lambda>a b. \<bar>real a - real b\<bar> / 10),
             flowMagnitude = (\<lambda>a b. \<bar>real a - real b\<bar>)\<rparr>"

definition toy_clip :: video_file where
  "toy_clip = \<lparr>path = ''b.mp4'', duration = 10\<rparr>"

definition toy_open :: "string \<Rightarrow> video_file option" where
  "toy_open p = (if p = ''b.mp4'' then Some toy_clip else None)"

definition toy_item :: video_item where
  "toy_item = \<lparr>item_file = ''b.mp4'',
     trims = Some [[''start'' \<mapsto> 2.0, ''end'' \<mapsto> 4.0]]\<rparr>"

definition toy_config :: app_config where
  "toy_config = \<lparr>highlight_min_scene_len = 2.0, highlight_motion_threshold = 12.0,
     highlight_top_k = 5, transitions_default = Some ''crossfade'',
     transitions_duration = 0.5\<rparr>"

section \<open>The frame loop keeps the boundary list ordered\<close>

lemma scan_step_frame_idx: "frame_idx (scan_step cv st f) = Suc (frame_idx st)"
  by (simp add: scan_step_def Let_def)

lemma scan_step_prev_hist: "prev_hist (scan_step cv st f) \<noteq> None"
  by (simp add: scan_step_def Let_def)

lemma scan_frames_frame_idx: "frame_idx (scan_frames cv st fs) = frame_idx st + length fs"
  by (induction fs arbitrary: st) (simp_all add: scan_step_frame_idx)

lemma scan_step_scenes:
  "scenes (scan_step cv st f) = scenes st \<or>
   (prev_hist st \<noteq> None \<and> scenes (scan_step cv st f) = scenes st @ [frame_idx st])"
  by (simp add: scan_step_def Let_def split: option.splits)

lemma scan_step_inv:
  assumes "scenes st \<noteq> []" "hd (scenes st) = 0" "sorted_wrt (<) (scenes st)"
    "\<forall>x \<in> set (scenes st). x = 0 \<or> x < frame_idx st"
    "prev_hist st = None \<longrightarrow> frame_idx st = 0"
    "prev_hist st \<noteq> None \<longrightarrow> 0 < frame_idx st"
  shows "scenes (scan_step cv st f) \<noteq> [] \<and> hd (scenes (scan_step cv st f)) = 0 \<and>
    sorted_wrt (<) (scenes (scan_step cv st f)) \<and>
    (\<forall>x \<in> set (scenes (scan_step cv st f)). x = 0 \<or> x < frame_idx (scan_step cv st f)) \<and>
    (prev_hist (scan_step cv st f) = None \<longrightarrow> frame_idx (scan_step cv st f) = 0) \<and>
    (prev_hist (scan_step cv st f) \<noteq> None \<longrightarrow> 0 < frame_idx (scan_step cv st f))"
  using scan_step_scenes [of cv st f] assms
  by (auto simp: scan_step_frame_idx scan_step_prev_hist sorted_wrt_append less_Suc_eq)

lemma scan_frames_inv:
  assumes "scenes st \<noteq> []" "hd (scenes st) = 0" "sorted_wrt (<) (scenes st)"
    "\<forall>x \<in> set (scenes st). x = 0 \<or> x < frame_idx st"
    "prev_hist st = None \<longrightarrow> frame_idx st = 0"
    "prev_hist st \<noteq> None \<longrightarrow> 0 < frame_idx st"
  shows "scenes (scan_frames cv st fs) \<noteq> [] \<and> hd (scenes (scan_frames cv st fs)) = 0 \<and>
    sorted_wrt (<) (scenes (scan_frames cv st fs)) \<and>
    (\<forall>x \<in> set (scenes (scan_frames cv st fs)). x = 0 \<or> x < frame_idx (scan_frames cv st fs))"
  using assms
proof (induction fs arbitrary: st)
  case Nil
  then show ?case by simp
next
  case (Cons f fs)
  have "scenes (scan_frames cv (scan_step cv st f) fs) \<noteq> [] \<and>
    hd (scenes (scan_frames cv (scan_step cv st f) fs)) = 0 \<and>
    sorted_wrt (<) (scenes (scan_frames cv (scan_step cv st f) fs)) \<and>
    (\<forall>x \<in> set (scenes (scan_frames cv (scan_step cv st f) fs)).
       x = 0 \<or> x < frame_idx (scan_frames cv (scan_step cv st f) fs))"
    using scan_step_inv [OF Cons.prems, of cv f] by (intro Cons.IH) blast+
  then show ?case by simp
qed

lemma scan_init_inv:
  "scenes (scan_frames cv init_state fs) \<noteq> [] \<and>
   hd (scenes (scan_frames cv init_state fs)) = 0 \<and>
   sorted_wrt (<) (scenes (scan_frames cv init_state fs)) \<and>
   (\<forall>x \<in> set (scenes (scan_frames cv init_state fs)). x = 0 \<or> x < length fs)"
  using scan_frames_inv [of init_state cv fs] scan_frames_frame_idx [of cv init_state fs]
  by (simp add: init_state_def)

lemma boundaries_facts:
  "hd (scene_boundaries cv fs) = 0 \<and> last (scene_boundaries cv fs) = length fs \<and>
   sorted (scene_boundaries cv fs) \<and> 2 \<le> length (scene_boundaries cv fs) \<and>
   sorted_wrt (<) (butlast (scene_boundaries cv fs))"
  using scan_init_inv [of cv fs] scan_frames_frame_idx [of cv init_state fs]
  by (auto simp: scene_boundaries_def Let_def sorted_append init_state_def
      strict_sorted_imp_sorted Suc_le_eq)

lemma length_scene_pairs: "length (scene_pairs bs) = length bs - 1"
  by (simp add: scene_pairs_def)

lemma nth_scene_pairs: "Suc i < length bs \<Longrightarrow> scene_pairs bs ! i = (bs ! i, bs ! Suc i)"
  by (simp add: scene_pairs_def nth_butlast nth_tl)

lemma sorted_cover:
  "sorted bs \<Longrightarrow> bs \<noteq> [] \<Longrightarrow> hd bs \<le> t \<Longrightarrow> t < last bs \<Longrightarrow>
     \<exists>i. Suc i < length bs \<and> bs ! i \<le> t \<and> t < bs ! Suc i" for t :: nat
proof (induction bs)
  case Nil
  then show ?case by simp
next
  case (Cons x xs)
  show ?case
  proof (cases xs)
    case Nil
    with Cons.prems show ?thesis by simp
  next
    case (Cons y ys)
    show ?thesis
    proof (cases "t < y")
      case True
      with Cons.prems Cons show ?thesis by (intro exI [of _ 0]) simp
    next
      case False
      with Cons.prems Cons Cons.IH obtain i where
        "Suc i < length xs \<and> xs ! i \<le> t \<and> t < xs ! Suc i" by auto
      then show ?thesis by (intro exI [of _ "Suc i"]) simp
    qed
  qed
qed

lemma sorted_cover_unique:
  fixes t :: nat
  assumes "sorted bs" "Suc i < length bs" "Suc j < length bs"
    "bs ! i \<le> t" "t < bs ! Suc i" "bs ! j \<le> t" "t < bs ! Suc j"
  shows "i = j"
proof (rule ccontr)
  assume "i \<noteq> j"
  then consider "Suc i \<le> j" | "Suc j \<le> i" by linarith
  then show False
  proof cases
    case 1
    then have "bs ! Suc i \<le> bs ! j" using assms(1,3) by (simp add: sorted_nth_mono)
    with assms show False by linarith
  next
    case 2
    then have "bs ! Suc j \<le> bs ! i" using assms(1,2) by (simp add: sorted_nth_mono)
    with assms show False by linarith
  qed
qed


lemma toy_scan:
  "scan_frames toy_cv init_state toy_frames =
     \<lparr>prev_gray = Some 50, prev_hist = Some 50, frame_idx = 11, scenes = [0, 2, 4, 7, 8],
      motion_scores = [2, 8, 4, 6, 2, 2, 16, 10, 0, 0]\<rparr>"
  by (simp add: scan_step_def Let_def init_state_def toy_cv_def toy_frames_def)

lemma toy_boundaries: "scene_boundaries toy_cv toy_frames = [0, 2, 4, 7, 8, 11]"
  by (simp add: scene_boundaries_def toy_scan)

lemma toy_pairs:
  "scene_pairs [0, 2, 4, 7, 8, 11] = [(0, 2), (2, 4), (4, 7), (7, 8), (8, 11)]"
  by (simp add: scene_pairs_def)

text \<open>
  C1: whatever the frames and the cuts, the boundary list starts at 0, ends at the number
  of frames read and is ordered; there is at least one scene; consecutive scenes share
  their boundary, an earlier scene ends no later than a later one starts, and every frame
  index below the frame count lies in exactly one scene.
\<close>

theorem scene_boundaries_partition:
  "hd (scene_boundaries cv fs) = 0 \<and>
   last (scene_boundaries cv fs) = length fs \<and>
   sorted (scene_boundaries cv fs) \<and>
   scene_pairs (scene_boundaries cv fs) \<noteq> [] \<and>
   (\<forall>i. Suc i < length (scene_pairs (scene_boundaries cv fs)) \<longrightarrow>
      snd (scene_pairs (scene_boundaries cv fs) ! i) =
      fst (scene_pairs (scene_boundaries cv fs) ! Suc i)) \<and>
   (\<forall>i j. i < j \<and> j < length (scene_pairs (scene_boundaries cv fs)) \<longrightarrow>
      snd (scene_pairs (scene_boundaries cv fs) ! i) \<le>
      fst (scene_pairs (scene_boundaries cv fs) ! j)) \<and>
   (\<forall>i < length (scene_pairs (scene_boundaries cv fs)).
      fst (scene_pairs (scene_boundaries cv fs) ! i) \<le>
      snd (scene_pairs (scene_boundaries cv fs) ! i)) \<and>
   (\<forall>t < length fs. \<exists>!i. i < length (scene_pairs (scene_boundaries cv fs)) \<and>
      fst (scene_pairs (scene_boundaries cv fs) ! i) \<le> t \<and>
      t < snd (scene_pairs (scene_boundaries cv fs) ! i))"
proof -
  let ?bs = "scene_boundaries cv fs"
  let ?ps = "scene_pairs ?bs"
  note bf = boundaries_facts [of cv fs]
  have len: "length ?ps = length ?bs - 1" by (rule length_scene_pairs)
  have nth: "\<And>i. i < length ?ps \<Longrightarrow> ?ps ! i = (?bs ! i, ?bs ! Suc i)"
    using len by (simp add: nth_scene_pairs)
  have ne: "?ps \<noteq> []" using bf len by (cases ?ps) auto
  have contiguous: "\<forall>i. Suc i < length ?ps \<longrightarrow> snd (?ps ! i) = fst (?ps ! Suc i)"
    using nth by simp
  have apart: "\<forall>i j. i < j \<and> j < length ?ps \<longrightarrow> snd (?ps ! i) \<le> fst (?ps ! j)"
  proof (intro allI impI)
    fix i j assume ij: "i < j \<and> j < length ?ps"
    then have "Suc i \<le> j" "j < length ?bs" using len by auto
    then have "?bs ! Suc i \<le> ?bs ! j" using bf sorted_nth_mono [of ?bs "Suc i" j] by blast
    then show "snd (?ps ! i) \<le> fst (?ps ! j)" using ij nth by simp
  qed
  have ordered: "\<forall>i < length ?ps. fst (?ps ! i) \<le> snd (?ps ! i)"
  proof (intro allI impI)
    fix i assume i: "i < length ?ps"
    then have "i \<le> Suc i" "Suc i < length ?bs" using len by auto
    then have "?bs ! i \<le> ?bs ! Suc i" using bf sorted_nth_mono [of ?bs i "Suc i"] by blast
    then show "fst (?ps ! i) \<le> snd (?ps ! i)" using i nth by simp
  qed
  have cover: "\<forall>t < length fs. \<exists>!i. i < length ?ps \<and> fst (?ps ! i) \<le> t \<and> t < snd (?ps ! i)"
  proof (intro allI impI)
    fix t assume t: "t < length fs"
    have bne: "?bs \<noteq> []" using bf by auto
    obtain i where i: "Suc i < length ?bs \<and> ?bs ! i \<le> t \<and> t < ?bs ! Suc i"
      using sorted_cover [of ?bs t] bf bne t by auto
    show "\<exists>!i. i < length ?ps \<and> fst (?ps ! i) \<le> t \<and> t < snd (?ps ! i)"
    proof (rule ex1I [of _ i])
      have il: "i < length ?ps" using i len by linarith
      show "i < length ?ps \<and> fst (?ps ! i) \<le> t \<and> t < snd (?ps ! i)"
        using i il nth [OF il] by simp
    next
      fix j assume j: "j < length ?ps \<and> fst (?ps ! j) \<le> t \<and> t < snd (?ps ! j)"
      then have jl: "j < length ?ps" by blast
      have "Suc j < length ?bs \<and> ?bs ! j \<le> t \<and> t < ?bs ! Suc j"
        using j jl len nth [OF jl] by auto
      then show "j = i" using sorted_cover_unique [of ?bs j i t] bf i by blast
    qed
  qed
  show ?thesis using bf ne contiguous apart ordered cover by blast
qed

theorem scene_boundaries_partition_witness:
  "scene_boundaries toy_cv toy_frames = [0, 2, 4, 7, 8, 11] \<and>
   hd (scene_boundaries toy_cv toy_frames) = 0 \<and>
   last (scene_boundaries toy_cv toy_frames) = length toy_frames \<and>
   scene_pairs (scene_boundaries toy_cv toy_frames) =
     [(0, 2), (2, 4), (4, 7), (7, 8), (8, 11)] \<and>
   (\<exists>!i. i < length (scene_pairs (scene_boundaries toy_cv toy_frames)) \<and>
      fst (scene_pairs (scene_boundaries toy_cv toy_frames) ! i) \<le> 5 \<and>
      5 < snd (scene_pairs (scene_boundaries toy_cv toy_frames) ! i))"
proof -
  have t: "5 < length toy_frames" by (simp add: toy_frames_def)
  show ?thesis
    using t scene_boundaries_partition [of toy_cv toy_frames]
    by (simp add: toy_boundaries toy_pairs)
qed

section \<open>Failure to open the source\<close>

text \<open>
  C7: for every path whose capture does not open, the detector returns the empty list
  and raises nothing, whatever the other parameters are.
\<close>

theorem detect_unopened_returns_empty:
  "\<not> isOpened (VideoCapture cv video_path) \<Longrightarrow>
     detect_scenes_and_highlights cv video_path min_scene_len_sec motion_threshold fps_fallback
       = Inr []"
  by (simp add: detect_scenes_and_highlights_def)

theorem detect_unopened_returns_empty_witness:
  "\<not> isOpened (VideoCapture toy_cv ''missing.mp4'') \<and>
     detect_scenes_and_highlights toy_cv ''missing.mp4'' 2 12 30 = Inr []"
proof -
  have h: "\<not> isOpened (VideoCapture toy_cv ''missing.mp4'')"
    by (simp add: toy_cv_def)
  show ?thesis using h detect_unopened_returns_empty [OF h, of 2 12 30] by simp
qed

section \<open>Joining segments\<close>

text \<open>
  C8: the join raises exactly when it is given no segments, and the error is then the
  \<open>ValueError\<close> of the source; a single segment is returned as it is, whatever the kind
  and the duration, with no concatenation built.
\<close>

theorem apply_transitions_raises_iff_empty:
  "(\<exists>err. apply_transitions segments kind dur = Inl err) = (segments = []) \<and>
   (apply_transitions segments kind dur = Inl ValueError) = (segments = []) \<and>
   apply_transitions [seg] kind dur = Inr seg"
  by (auto simp: apply_transitions_def Let_def)

theorem apply_transitions_raises_iff_empty_witness:
  "apply_transitions [] (Some ''crossfade'') 0.5 = Inl ValueError \<and>
   apply_transitions [FileClip toy_clip] (Some ''crossfade'') 0.5 = Inr (FileClip toy_clip) \<and>
   (\<nexists>err. apply_transitions [Subclip toy_clip 0 1, Subclip toy_clip 2 3] (Some ''cut'') 0.5
      = Inl err)"
  using apply_transitions_raises_iff_empty [of "[]" "Some ''crossfade''" "0.5" "FileClip toy_clip"]
    apply_transitions_raises_iff_empty
      [of "[Subclip toy_clip 0 1, Subclip toy_clip 2 3]" "Some ''cut''" "0.5" "FileClip toy_clip"]
  by simp

text \<open>
  C4 as written fails: a missing kind and an empty kind are replaced by \<open>crossfade\<close>
  before the test, so two segments are joined with an overlap of the duration, not back
  to back.
\<close>

theorem apply_transitions_missing_kind_overlaps:
  "apply_transitions [Subclip toy_clip 0 1, Subclip toy_clip 2 3] None 0.5
     = Inr (Concatenate [Subclip toy_clip 0 1, Subclip toy_clip 2 3] (- 0.5)) \<and>
   apply_transitions [Subclip toy_clip 0 1, Subclip toy_clip 2 3] (Some []) 0.5
     = Inr (Concatenate [Subclip toy_clip 0 1, Subclip toy_clip 2 3] (- 0.5)) \<and>
   apply_transitions [Subclip toy_clip 0 1, Subclip toy_clip 2 3] None 0.5
     \<noteq> Inr (Concatenate [Subclip toy_clip 0 1, Subclip toy_clip 2 3] 0)"
  by (simp add: apply_transitions_def kind_or_crossfade_def lower_def lower_char_def)

text \<open>
  C4, amended: for two or more segments the join is a concatenation of exactly these
  segments.  Its overlap is the transition duration when the kind is missing or empty, or
  when its lower-case form is \<open>crossfade\<close> or \<open>fade\<close>; for every other kind the
  padding is 0 and the overlap is 0.
\<close>

theorem apply_transitions_join:
  "2 \<le> length segments \<Longrightarrow>
     (kind = None \<or> kind = Some [] \<longrightarrow>
        apply_transitions segments kind dur = Inr (Concatenate segments (- dur))) \<and>
     (\<forall>k. kind = Some k \<and> lower k \<in> {''crossfade'', ''fade''} \<longrightarrow>
        apply_transitions segments kind dur = Inr (Concatenate segments (- dur))) \<and>
     (\<forall>k. kind = Some k \<and> k \<noteq> [] \<and> lower k \<notin> {''crossfade'', ''fade''} \<longrightarrow>
        apply_transitions segments kind dur = Inr (Concatenate segments 0)) \<and>
     (\<exists>c. apply_transitions segments kind dur = Inr c \<and>
        (overlap c = dur \<or> overlap c = 0))"
  by (cases kind)
    (auto simp: apply_transitions_def kind_or_crossfade_def Let_def lower_def lower_char_def)

theorem apply_transitions_join_witness:
  "2 \<le> length [Subclip toy_clip 0 1, Subclip toy_clip 2 3] \<and>
   lower ''Fade'' \<in> {''crossfade'', ''fade''} \<and>
   apply_transitions [Subclip toy_clip 0 1, Subclip toy_clip 2 3] (Some ''Fade'') 0.5
     = Inr (Concatenate [Subclip toy_clip 0 1, Subclip toy_clip 2 3] (- 0.5)) \<and>
   ''cut'' \<noteq> [] \<and> lower ''cut'' \<notin> {''crossfade'', ''fade''} \<and>
   apply_transitions [Subclip toy_clip 0 1, Subclip toy_clip 2 3] (Some ''cut'') 0.5
     = Inr (Concatenate [Subclip toy_clip 0 1, Subclip toy_clip 2 3] 0) \<and>
   apply_transitions [Subclip toy_clip 0 1, Subclip toy_clip 2 3] None 0.5
     = Inr (Concatenate [Subclip toy_clip 0 1, Subclip toy_clip 2 3] (- 0.5))"
proof -
  have len: "2 \<le> length [Subclip toy_clip 0 1, Subclip toy_clip 2 3]" by simp
  have fade: "lower ''Fade'' \<in> {''crossfade'', ''fade''}"
    by (simp add: lower_def lower_char_def)
  have cut: "''cut'' \<noteq> [] \<and> lower ''cut'' \<notin> {''crossfade'', ''fade''}"
    by (simp add: lower_def lower_char_def)
  show ?thesis
    using len fade cut
      apply_transitions_join [OF len, of "Some ''Fade''" "0.5"]
      apply_transitions_join [OF len, of "Some ''cut''" "0.5"]
      apply_transitions_join [OF len, of None "0.5"]
    by auto
qed

section \<open>Assembling the sequence\<close>

lemma build_segments_in_range:
  "\<forall>h \<in> set selected. max 0 (start_sec h - pad) \<le> duration clip \<Longrightarrow>
     build_segments clip pad selected =
       Inr (map (\<lambda>h. Subclip clip (max 0 (start_sec h - pad))
                         (min (duration clip) (end_sec h + pad))) selected)"
proof (induction selected)
  case Nil
  then show ?case by simp
next
  case (Cons h rest)
  obtain s e sc where h: "h = (s, e, sc)" by (cases h) auto
  have "max 0 (s - pad) \<le> duration clip"
    using Cons.prems by (simp add: h start_sec_def)
  moreover have "0 \<le> max 0 (s - pad)" by simp
  ultimately have "subclip clip (max 0 (s - pad)) (min (duration clip) (e + pad)) =
      Inr (Subclip clip (max 0 (s - pad)) (min (duration clip) (e + pad)))"
    by (auto simp: subclip_def max_def)
  then show ?case
    using Cons by (simp add: h start_sec_def end_sec_def)
qed

text \<open>
  C2 as written fails: a selected highlight that starts more than the pad beyond the end
  of the source makes \<open>subclip\<close> raise, so no list is returned.
\<close>

theorem build_sequence_raises_beyond_source:
  "build_sequence toy_open ''b.mp4'' [(12, 14, 1)] 5 0.25 = Inl ValueError"
  by (simp add: build_sequence_def toy_open_def toy_clip_def py_prefix_def py_bound_def
      subclip_def)

text \<open>
  C2, amended: when the source opens and every selected highlight, that is every one of
  \<open>highlights[:top_k]\<close>, has \<open>max 0 (start - pad)\<close> within the duration of the source,
  the assembler returns the opened clip and a non-empty segment list.  When the truncated
  list is empty the list is the whole clip alone; otherwise it has one sub-range
  \<open>(max 0 (start - pad), min duration (end + pad))\<close> per selected highlight, in the order
  of the selection.
\<close>

theorem build_sequence_nonempty:
  assumes "open_clip video_path = Some clip"
    and "\<forall>h \<in> set (py_prefix highlights top_k). max 0 (start_sec h - pad) \<le> duration clip"
  shows "\<exists>segments.
     build_sequence open_clip video_path highlights top_k pad = Inr (clip, segments) \<and>
     segments \<noteq> [] \<and>
     (py_prefix highlights top_k = [] \<longrightarrow> segments = [FileClip clip]) \<and>
     (py_prefix highlights top_k \<noteq> [] \<longrightarrow>
        length segments = length (py_prefix highlights top_k) \<and>
        (\<forall>i < length (py_prefix highlights top_k).
           segments ! i =
             Subclip clip (max 0 (start_sec (py_prefix highlights top_k ! i) - pad))
               (min (duration clip) (end_sec (py_prefix highlights top_k ! i) + pad))))"
  using assms(1) build_segments_in_range [OF assms(2)]
  by (simp add: build_sequence_def)

theorem build_sequence_nonempty_witness:
  "toy_open ''b.mp4'' = Some toy_clip \<and>
   py_prefix ([] :: highlight list) 5 = [] \<and>
   build_sequence toy_open ''b.mp4'' [] 5 0.25 = Inr (toy_clip, [FileClip toy_clip]) \<and>
   py_prefix ([(0, 5, 2)] :: highlight list) 5 = [(0, 5, 2)] \<and>
   max 0 (start_sec (0, 5, 2) - 0.25) \<le> duration toy_clip \<and>
   build_sequence toy_open ''b.mp4'' [(0, 5, 2)] 5 0.25 =
     Inr (toy_clip, [Subclip toy_clip 0 5.25]) \<and>
   build_sequence toy_open ''b.mp4'' [(0, 5, 2)] 0 0.25 = Inr (toy_clip, [FileClip toy_clip])"
proof -
  have o: "toy_open ''b.mp4'' = Some toy_clip" by (simp add: toy_open_def)
  have p0: "py_prefix ([] :: highlight list) 5 = []" by (simp add: py_prefix_def)
  have p1: "py_prefix ([(0, 5, 2)] :: highlight list) 5 = [(0, 5, 2)]"
    by (simp add: py_prefix_def py_bound_def)
  have p2: "py_prefix ([(0, 5, 2)] :: highlight list) 0 = []"
    by (simp add: py_prefix_def py_bound_def)
  have r: "max 0 (start_sec (0, 5, 2) - 0.25) \<le> duration toy_clip"
    by (simp add: start_sec_def toy_clip_def)
  have h0: "\<forall>h \<in> set (py_prefix ([] :: highlight list) 5).
      max 0 (start_sec h - 0.25) \<le> duration toy_clip" by (simp add: p0)
  have h1: "\<forall>h \<in> set (py_prefix ([(0, 5, 2)] :: highlight list) 5).
      max 0 (start_sec h - 0.25) \<le> duration toy_clip" using r by (simp add: p1)
  have h2: "\<forall>h \<in> set (py_prefix ([(0, 5, 2)] :: highlight list) 0).
      max 0 (start_sec h - 0.25) \<le> duration toy_clip" by (simp add: p2)
  show ?thesis
    using o p0 p1 r
      build_sequence_nonempty [of toy_open "''b.mp4''" toy_clip "[]" 5 "0.25", OF o h0]
      build_sequence_nonempty [of toy_open "''b.mp4''" toy_clip "[(0, 5, 2)]" 5 "0.25", OF o h1]
      build_sequence_nonempty [of toy_open "''b.mp4''" toy_clip "[(0, 5, 2)]" 0 "0.25", OF o h2]
    by (auto simp: p2 start_sec_def end_sec_def toy_clip_def length_Suc_conv)
qed

section \<open>Manual trims in place of an empty detection\<close>

lemma toy_detect_b: "detect_scenes_and_highlights toy_cv ''b.mp4'' 2 12 30 = Inr []"
  by (simp add: detect_scenes_and_highlights_def scene_highlights_def toy_cv_def
      effective_fps_def scene_boundaries_def scene_pairs_def scan_step_def Let_def
      init_state_def numeral_eq_Suc scene_score_def seg_motion_def py_slice_def py_bound_def
      np_mean_def sort_by_score_desc_def)

lemma trims_to_highlights_ok:
  "\<forall>t \<in> set ts. t ''start'' \<noteq> None \<and> t ''end'' \<noteq> None \<Longrightarrow>
     trims_to_highlights ts = Inr (map (\<lambda>t. (the (t ''start''), the (t ''end''), 1)) ts)"
  by (induction ts) auto

lemma apply_transitions_ok:
  "segments \<noteq> [] \<Longrightarrow> \<exists>c. apply_transitions segments kind dur = Inr c"
  by (simp add: apply_transitions_def Let_def)

text \<open>
  C9 as written fails twice.  A trim that starts beyond the end of the source is not
  clamped into it: the run raises in \<open>subclip\<close>.  And with \<open>top_k = 0\<close> the trim
  \<open>(2, 4)\<close> on the source of 10 seconds is not selected at all, so the segments are the
  whole clip and not \<open>(1.75, 4.25)\<close>.
\<close>

theorem trims_beyond_source_or_unselected:
  "process_single_video_sequence toy_cv toy_open toy_config
     (toy_item\<lparr>trims := Some [[''start'' \<mapsto> 12, ''end'' \<mapsto> 14]]\<rparr>) = Inl ValueError \<and>
   process_single_video_sequence toy_cv toy_open (toy_config\<lparr>highlight_top_k := 0\<rparr>) toy_item =
     Inr ([(2, 4, 1)], toy_clip, [FileClip toy_clip], FileClip toy_clip)"
  using toy_detect_b
  by (simp add: process_single_video_sequence_def toy_item_def toy_config_def
      substitute_trims_def build_sequence_def toy_open_def toy_clip_def py_prefix_def
      py_bound_def subclip_def apply_transitions_def)

text \<open>
  C9, amended: when the detector returns no highlight and the item carries a non-empty
  list of trims, each with a start and an end, the highlights of the run are these trims
  in their order, each with score 1, and the selection is the first \<open>top_k\<close> of them.
  When the source opens and every selected trim has \<open>max 0 (start - 0.25)\<close> within the
  duration and \<open>end + 0.25\<close> not below 0, the segments are the sub-ranges
  \<open>(max 0 (start - 0.25), min duration (end + 0.25))\<close> of the selected trims, each within
  0 and the duration (the whole clip when nothing is selected).  For the single trim
  \<open>(2, 4)\<close>, a source of 10 seconds and \<open>top_k\<close> at least 1 the segments are the one
  sub-range \<open>(1.75, 4.25)\<close>.
\<close>

theorem trims_substituted_and_padded:
  assumes "detect_scenes_and_highlights cv (item_file item) (highlight_min_scene_len config)
             (highlight_motion_threshold config) 30 = Inr []"
    and "trims item = Some ts" and "ts \<noteq> []"
    and "\<forall>t \<in> set ts. t ''start'' \<noteq> None \<and> t ''end'' \<noteq> None"
    and "open_clip (item_file item) = Some clip"
    and "\<forall>h \<in> set (py_prefix (map (\<lambda>t. (the (t ''start''), the (t ''end''), 1::real)) ts)
                       (highlight_top_k config)).
           max 0 (start_sec h - 0.25) \<le> duration clip \<and> 0 \<le> end_sec h + 0.25"
  shows "\<exists>segments seq_clip.
           process_single_video_sequence cv open_clip config item =
             Inr (map (\<lambda>t. (the (t ''start''), the (t ''end''), 1::real)) ts,
                  clip, segments, seq_clip) \<and>
           segments =
             (if py_prefix (map (\<lambda>t. (the (t ''start''), the (t ''end''), 1::real)) ts)
                   (highlight_top_k config) = []
              then [FileClip clip]
              else map (\<lambda>h. Subclip clip (max 0 (start_sec h - 0.25))
                               (min (duration clip) (end_sec h + 0.25)))
                     (py_prefix (map (\<lambda>t. (the (t ''start''), the (t ''end''), 1::real)) ts)
                        (highlight_top_k config))) \<and>
           (\<forall>h \<in> set (py_prefix (map (\<lambda>t. (the (t ''start''), the (t ''end''), 1::real)) ts)
                         (highlight_top_k config)).
              0 \<le> max 0 (start_sec h - 0.25) \<and> max 0 (start_sec h - 0.25) \<le> duration clip \<and>
              0 \<le> min (duration clip) (end_sec h + 0.25) \<and>
              min (duration clip) (end_sec h + 0.25) \<le> duration clip) \<and>
           ((\<exists>t. ts = [t] \<and> t ''start'' = Some 2 \<and> t ''end'' = Some 4) \<and>
            duration clip = 10 \<and> 1 \<le> highlight_top_k config \<longrightarrow>
              segments = [Subclip clip 1.75 4.25])"
proof -
  let ?hs = "map (\<lambda>t. (the (t ''start''), the (t ''end''), 1::real)) ts"
  let ?sel = "py_prefix ?hs (highlight_top_k config)"
  let ?pad = "\<lambda>h. Subclip clip (max 0 (start_sec h - 0.25))
                      (min (duration clip) (end_sec h + 0.25))"
  define segs where "segs = (if ?sel = [] then [FileClip clip] else map ?pad ?sel)"
  have sub: "substitute_trims [] item = Inr ?hs"
    using assms(2,3) trims_to_highlights_ok [OF assms(4)] by (simp add: substitute_trims_def)
  have inr: "\<forall>h \<in> set ?sel. max 0 (start_sec h - 0.25) \<le> duration clip"
    using assms(6) by blast
  have bs: "build_sequence open_clip (item_file item) ?hs (highlight_top_k config) 0.25 =
      Inr (clip, segs)"
    using assms(5) build_segments_in_range [OF inr]
    by (simp add: build_sequence_def segs_def)
  have ne: "segs \<noteq> []" by (simp add: segs_def)
  obtain c where c: "apply_transitions segs (transitions_default config)
      (transitions_duration config) = Inr c"
    using apply_transitions_ok [OF ne] by blast
  have run: "process_single_video_sequence cv open_clip config item =
      Inr (?hs, clip, segs, c)"
    unfolding process_single_video_sequence_def using assms(1) sub bs c by simp
  have within: "\<forall>h \<in> set ?sel.
      0 \<le> max 0 (start_sec h - 0.25) \<and> max 0 (start_sec h - 0.25) \<le> duration clip \<and>
      0 \<le> min (duration clip) (end_sec h + 0.25) \<and>
      min (duration clip) (end_sec h + 0.25) \<le> duration clip"
  proof
    fix h assume h: "h \<in> set ?sel"
    then have a: "max 0 (start_sec h - 0.25) \<le> duration clip" "0 \<le> end_sec h + 0.25"
      using assms(6) by blast+
    have "0 \<le> max 0 (start_sec h - 0.25)" by simp
    then have "0 \<le> duration clip" using a(1) by linarith
    then show "0 \<le> max 0 (start_sec h - 0.25) \<and>
      max 0 (start_sec h - 0.25) \<le> duration clip \<and>
      0 \<le> min (duration clip) (end_sec h + 0.25) \<and>
      min (duration clip) (end_sec h + 0.25) \<le> duration clip"
      using a by simp
  qed
  have scenario: "(\<exists>t. ts = [t] \<and> t ''start'' = Some 2 \<and> t ''end'' = Some 4) \<and>
      duration clip = 10 \<and> 1 \<le> highlight_top_k config \<longrightarrow>
      segs = [Subclip clip 1.75 4.25]"
    by (auto simp: segs_def py_prefix_def py_bound_def start_sec_def end_sec_def)
  show ?thesis
    apply (rule exI [of _ segs])
    apply (rule exI [of _ c])
    apply (intro conjI)
       apply (rule run)
      apply (rule segs_def)
     apply (rule within)
    apply (rule scenario)
    done
qed

theorem trims_substituted_and_padded_witness:
  "detect_scenes_and_highlights toy_cv (item_file toy_item)
     (highlight_min_scene_len toy_config) (highlight_motion_threshold toy_config) 30 = Inr [] \<and>
   trims toy_item = Some [[''start'' \<mapsto> 2, ''end'' \<mapsto> 4]] \<and>
   toy_open (item_file toy_item) = Some toy_clip \<and>
   duration toy_clip = 10 \<and>
   1 \<le> highlight_top_k toy_config \<and>
   (\<exists>seq_clip. process_single_video_sequence toy_cv toy_open toy_config toy_item =
      Inr ([(2, 4, 1)], toy_clip, [Subclip toy_clip 1.75 4.25], seq_clip))"
proof -
  let ?ts = "[[''start'' \<mapsto> 2, ''end'' \<mapsto> 4 :: real]]"
  have d: "detect_scenes_and_highlights toy_cv (item_file toy_item)
      (highlight_min_scene_len toy_config) (highlight_motion_threshold toy_config) 30 = Inr []"
    using toy_detect_b by (simp add: toy_item_def toy_config_def)
  have t: "trims toy_item = Some ?ts" by (simp add: toy_item_def)
  have n: "?ts \<noteq> []" by simp
  have k: "\<forall>t \<in> set ?ts. t ''start'' \<noteq> None \<and> t ''end'' \<noteq> None" by simp
  have o: "toy_open (item_file toy_item) = Some toy_clip"
    by (simp add: toy_open_def toy_item_def)
  have r: "\<forall>h \<in> set (py_prefix (map (\<lambda>t. (the (t ''start''), the (t ''end''), 1::real)) ?ts)
                       (highlight_top_k toy_config)).
           max 0 (start_sec h - 0.25) \<le> duration toy_clip \<and> 0 \<le> end_sec h + 0.25"
    by (simp add: py_prefix_def py_bound_def toy_config_def toy_clip_def start_sec_def
        end_sec_def)
  have s: "(\<exists>t. ?ts = [t] \<and> t ''start'' = Some 2 \<and> t ''end'' = Some 4) \<and>
      duration toy_clip = 10 \<and> 1 \<le> highlight_top_k toy_config"
    by (simp add: toy_clip_def toy_config_def)
  show ?thesis
    using d t o s
      trims_substituted_and_padded
        [of toy_cv toy_item toy_config ?ts toy_open toy_clip, OF d t n k o r]
    by (auto simp: py_prefix_def py_bound_def toy_config_def start_sec_def end_sec_def)
qed

section \<open>The score of a scene\<close>

lemma map_nth_upt_drop_take:
  assumes "n \<le> length xs"
  shows "map (\<lambda>k. xs ! k) [a ..< n] = drop a (take n xs)"
proof (rule nth_equalityI)
  show "length (map (\<lambda>k. xs ! k) [a ..< n]) = length (drop a (take n xs))"
    using assms by simp
next
  fix i assume "i < length (map (\<lambda>k. xs ! k) [a ..< n])"
  then have i: "a + i < n" by simp
  then have "map (\<lambda>k. xs ! k) [a ..< n] ! i = xs ! (a + i)" by simp
  moreover have "drop a (take n xs) ! i = xs ! (a + i)" using i assms by simp
  ultimately show "map (\<lambda>k. xs ! k) [a ..< n] ! i = drop a (take n xs) ! i" by simp
qed

lemma drop_take_nth_range:
  "drop a (take b xs) = map (\<lambda>k. xs ! k) (filter (\<lambda>k. k < length xs) [a ..< b])"
proof -
  have "filter (\<lambda>k. k < length xs) [a ..< b] = [a ..< min b (length xs)]"
    by (induction b) auto
  moreover have "map (\<lambda>k. xs ! k) [a ..< min b (length xs)] =
      drop a (take (min b (length xs)) xs)"
    by (rule map_nth_upt_drop_take) simp
  moreover have "take (min b (length xs)) xs = take b xs"
    by (simp add: min_def)
  ultimately show ?thesis by simp
qed

lemma seg_motion_eq: "seg_motion motion s e = motion_in_range motion s e"
proof (cases "motion = []")
  case True
  then show ?thesis by (simp add: seg_motion_def motion_in_range_def)
next
  case False
  let ?n = "length motion"
  have lo: "py_bound ?n (int s) = min ?n s" by (simp add: py_bound_def)
  have "max (int s) (int e - 1) = int (max s (e - 1))"
    by (cases e) (auto simp: max_def)
  then have hi: "py_bound ?n (max (int s) (int e - 1)) = min ?n (max s (e - 1))"
    by (simp add: py_bound_def)
  have "seg_motion motion s e = drop (min ?n s) (take (min ?n (max s (e - 1))) motion)"
    using False by (simp add: seg_motion_def py_slice_def lo hi)
  also have "\<dots> = drop s (take (max s (e - 1)) motion)"
    by (auto simp: min_def)
  also have "\<dots> = drop s (take (e - 1) motion)"
    by (auto simp: max_def)
  also have "\<dots> = motion_in_range motion s e"
    by (simp add: drop_take_nth_range motion_in_range_def)
  finally show ?thesis .
qed

text \<open>
  C6: for every motion series and every scene \<open>[s, e)\<close> the score is the arithmetic mean
  of the magnitudes whose index in the series falls in \<open>[s, e - 1)\<close>, and 0 when there
  is none; there is none, and the score is 0, when \<open>e - 1 \<le> s\<close> or the series is
  empty.
\<close>

theorem scene_score_is_mean:
  "scene_score motion s e = mean_motion_in_range motion s e \<and>
   (int e - 1 \<le> int s \<or> motion = [] \<longrightarrow>
      motion_in_range motion s e = [] \<and> scene_score motion s e = 0)"
  by (auto simp: scene_score_def mean_motion_in_range_def seg_motion_eq np_mean_def
      motion_in_range_def)

theorem scene_score_is_mean_witness:
  "int 8 - 1 \<le> int 7 \<and>
   scene_score [2, 8, 4, 6, 2, 2, 16, 10, 0, 0] 7 8 = 0 \<and>
   motion_in_range [2, 8, 4, 6, 2, 2, 16, 10, 0, 0] 2 7 = [4, 6, 2, 2] \<and>
   scene_score [2, 8, 4, 6, 2, 2, 16, 10, 0, 0] 2 7 = 3.5 \<and>
   scene_score [] 2 7 = 0"
proof -
  have r: "motion_in_range [2, 8, 4, 6, 2, 2, 16, 10, 0, 0] 2 7 = [4, 6, 2, 2]"
    by (simp add: motion_in_range_def upt_rec)
  show ?thesis
    using r scene_score_is_mean [of "[2, 8, 4, 6, 2, 2, 16, 10, 0, 0]" 7 8]
      scene_score_is_mean [of "[2, 8, 4, 6, 2, 2, 16, 10, 0, 0]" 2 7]
      scene_score_is_mean [of "[]" 2 7]
    by (simp add: mean_motion_in_range_def)
qed

section \<open>Filtering and ranking the scenes\<close>

lemma collect_highlights_eq:
  "fps \<noteq> 0 \<Longrightarrow>
     collect_highlights fps ml thr motion ps =
       Inr (map (scene_candidate fps motion) (filter (scene_kept fps ml thr motion) ps))"
  by (induction ps) (auto simp: scene_candidate_def scene_kept_def)

lemma collect_highlights_zero:
  "ps \<noteq> [] \<Longrightarrow> collect_highlights 0 ml thr motion ps = Inl ZeroDivisionError"
  by (cases ps) auto

lemma video_scenes_nonempty: "video_scenes cv vpath \<noteq> []"
  using boundaries_facts [of cv "frames (VideoCapture cv vpath)"]
    length_scene_pairs [of "scene_boundaries cv (frames (VideoCapture cv vpath))"]
  by (cases "video_scenes cv vpath") (auto simp: video_scenes_def)

lemma detect_opened:
  assumes "isOpened (VideoCapture cv vpath)"
    and "detect_scenes_and_highlights cv vpath ml thr fb = Inr hs"
  shows "video_fps cv vpath fb \<noteq> 0 \<and>
    hs = sort_by_score_desc (map (scene_candidate (video_fps cv vpath fb) (video_motion cv vpath))
           (filter (scene_kept (video_fps cv vpath fb) ml thr (video_motion cv vpath))
              (video_scenes cv vpath)))"
proof -
  have run: "(case collect_highlights (video_fps cv vpath fb) ml thr (video_motion cv vpath)
       (video_scenes cv vpath) of Inl err \<Rightarrow> Inl err | Inr xs \<Rightarrow> Inr (sort_by_score_desc xs))
     = Inr hs"
    using assms
    by (simp add: detect_scenes_and_highlights_def scene_highlights_def Let_def
        video_fps_def video_motion_def video_scenes_def)
  have nz: "video_fps cv vpath fb \<noteq> 0"
  proof
    assume "video_fps cv vpath fb = 0"
    then show False
      using run collect_highlights_zero [OF video_scenes_nonempty, of ml thr "video_motion cv vpath" cv vpath]
      by simp
  qed
  then show ?thesis using run by (simp add: collect_highlights_eq)
qed

lemma detect_unopened: "\<not> isOpened (VideoCapture cv vpath) \<Longrightarrow>
   detect_scenes_and_highlights cv vpath ml thr fb = Inr []"
  by (simp add: detect_scenes_and_highlights_def)

lemma set_sort_by_score_desc: "set (sort_by_score_desc hs) = set hs"
  by (simp add: sort_by_score_desc_def)

lemma video_scenes_distinct_fst: "distinct (map fst (video_scenes cv vpath))"
proof -
  let ?bs = "scene_boundaries cv (frames (VideoCapture cv vpath))"
  have "sorted_wrt (<) (butlast ?bs)" using boundaries_facts [of cv] by blast
  then have "distinct (butlast ?bs)" using strict_sorted_iff by blast
  moreover have "map fst (video_scenes cv vpath) = butlast ?bs"
    by (simp add: video_scenes_def scene_pairs_def map_fst_zip_take)
  ultimately show ?thesis by simp
qed

lemma toy_video_fps: "video_fps toy_cv ''a.mp4'' 30 = 1"
  by (simp add: video_fps_def effective_fps_def toy_cv_def)

lemma toy_video_motion: "video_motion toy_cv ''a.mp4'' = [2, 8, 4, 6, 2, 2, 16, 10, 0, 0]"
  using toy_scan by (simp add: video_motion_def toy_cv_def)

lemma toy_video_scenes:
  "video_scenes toy_cv ''a.mp4'' = [(0, 2), (2, 4), (4, 7), (7, 8), (8, 11)]"
  using toy_boundaries toy_pairs by (simp add: video_scenes_def toy_cv_def)

lemma toy_scores:
  "scene_score [2, 8, 4, 6, 2, 2, 16, 10, 0, 0] 0 2 = 2"
  "scene_score [2, 8, 4, 6, 2, 2, 16, 10, 0, 0] 2 4 = 4"
  "scene_score [2, 8, 4, 6, 2, 2, 16, 10, 0, 0] 4 7 = 2"
  "scene_score [2, 8, 4, 6, 2, 2, 16, 10, 0, 0] 7 8 = 0"
  "scene_score [2, 8, 4, 6, 2, 2, 16, 10, 0, 0] 8 11 = 0"
  by (simp_all add: scene_score_def seg_motion_def py_slice_def py_bound_def np_mean_def)

lemma toy_opened: "isOpened (VideoCapture toy_cv ''a.mp4'')"
  by (simp add: toy_cv_def)

lemma toy_detect_a:
  "detect_scenes_and_highlights toy_cv ''a.mp4'' 2 12 30 =
     Inr [(2, 4, 4), (0, 2, 2), (4, 7, 2)]"
  using toy_opened toy_video_fps toy_video_motion toy_video_scenes
  by (simp add: detect_scenes_and_highlights_def scene_highlights_def Let_def
      video_fps_def video_motion_def video_scenes_def toy_scores sort_by_score_desc_def
      score_def)

lemma toy_detect_a3:
  "detect_scenes_and_highlights toy_cv ''a.mp4'' 3 12 30 = Inr [(4, 7, 2)]"
  using toy_opened toy_video_fps toy_video_motion toy_video_scenes
  by (simp add: detect_scenes_and_highlights_def scene_highlights_def Let_def
      video_fps_def video_motion_def video_scenes_def toy_scores sort_by_score_desc_def
      score_def)

text \<open>
  C5: every highlight of a returned list lasts at least the minimum scene length and has
  a score of at least a tenth of the motion threshold.  Conversely, for a scene of the
  opened video that is shorter than the minimum, or whose score is below the scaled
  threshold, the tuple of that scene is not in the list, and no highlight of the list
  starts where that scene starts, whatever the other value of the scene is.
\<close>

theorem highlights_pass_both_filters:
  assumes "detect_scenes_and_highlights cv vpath ml thr fb = Inr hs"
  shows "(\<forall>h \<in> set hs. end_sec h - start_sec h \<ge> ml \<and> score h \<ge> thr * 0.1) \<and>
    (isOpened (VideoCapture cv vpath) \<longrightarrow>
      (\<forall>p \<in> set (video_scenes cv vpath).
         (real (snd p) / video_fps cv vpath fb - real (fst p) / video_fps cv vpath fb < ml \<or>
          scene_score (video_motion cv vpath) (fst p) (snd p) < thr * 0.1) \<longrightarrow>
         scene_candidate (video_fps cv vpath fb) (video_motion cv vpath) p \<notin> set hs \<and>
         (\<forall>h \<in> set hs. start_sec h \<noteq> real (fst p) / video_fps cv vpath fb)))"
proof (cases "isOpened (VideoCapture cv vpath)")
  case False
  then have "hs = []" using assms detect_unopened [OF False, of ml thr fb] by simp
  with False show ?thesis by simp
next
  case True
  let ?fps = "video_fps cv vpath fb"
  let ?m = "video_motion cv vpath"
  let ?ps = "video_scenes cv vpath"
  note d = detect_opened [OF True assms]
  then have nz: "?fps \<noteq> 0" by blast
  have sets: "set hs = scene_candidate ?fps ?m ` {p \<in> set ?ps. scene_kept ?fps ml thr ?m p}"
    using d by (simp add: set_sort_by_score_desc)
  have pass: "\<forall>h \<in> set hs. end_sec h - start_sec h \<ge> ml \<and> score h \<ge> thr * 0.1"
    using sets
    by (auto simp: scene_candidate_def scene_kept_def start_sec_def end_sec_def score_def)
  have absent: "\<forall>p \<in> set ?ps.
         (real (snd p) / ?fps - real (fst p) / ?fps < ml \<or>
          scene_score ?m (fst p) (snd p) < thr * 0.1) \<longrightarrow>
         scene_candidate ?fps ?m p \<notin> set hs \<and>
         (\<forall>h \<in> set hs. start_sec h \<noteq> real (fst p) / ?fps)"
  proof (intro ballI impI)
    fix p assume p: "p \<in> set ?ps"
      and low: "real (snd p) / ?fps - real (fst p) / ?fps < ml \<or>
          scene_score ?m (fst p) (snd p) < thr * 0.1"
    then have nk: "\<not> scene_kept ?fps ml thr ?m p" by (auto simp: scene_kept_def)
    have starts: "\<forall>h \<in> set hs. start_sec h \<noteq> real (fst p) / ?fps"
    proof
      fix h assume "h \<in> set hs"
      then obtain q where q: "q \<in> set ?ps" "scene_kept ?fps ml thr ?m q"
        "h = scene_candidate ?fps ?m q" using sets by auto
      show "start_sec h \<noteq> real (fst p) / ?fps"
      proof
        assume "start_sec h = real (fst p) / ?fps"
        then have "fst q = fst p" using q(3) nz
          by (simp add: start_sec_def scene_candidate_def)
        then have "q = p"
          using eq_key_imp_eq_value [OF video_scenes_distinct_fst, of "fst p" "snd q" cv vpath "snd p"]
            p q(1) by (metis prod.collapse)
        with q(2) nk show False by simp
      qed
    qed
    moreover have "start_sec (scene_candidate ?fps ?m p) = real (fst p) / ?fps"
      by (simp add: start_sec_def scene_candidate_def)
    ultimately show "scene_candidate ?fps ?m p \<notin> set hs \<and>
         (\<forall>h \<in> set hs. start_sec h \<noteq> real (fst p) / ?fps)" by blast
  qed
  show ?thesis using pass absent by blast
qed

theorem highlights_pass_both_filters_witness:
  "detect_scenes_and_highlights toy_cv ''a.mp4'' 3 12 30 = Inr [(4, 7, 2)] \<and>
   end_sec (4, 7, 2) - start_sec (4, 7, 2) \<ge> 3 \<and> score (4, 7, 2) \<ge> 12 * 0.1 \<and>
   isOpened (VideoCapture toy_cv ''a.mp4'') \<and>
   (0, 2) \<in> set (video_scenes toy_cv ''a.mp4'') \<and>
   real 2 / video_fps toy_cv ''a.mp4'' 30 - real 0 / video_fps toy_cv ''a.mp4'' 30 < 3 \<and>
   scene_score (video_motion toy_cv ''a.mp4'') 0 2 \<ge> 12 * 0.1 \<and>
   scene_candidate (video_fps toy_cv ''a.mp4'' 30) (video_motion toy_cv ''a.mp4'') (0, 2)
     \<notin> set [(4, 7, 2)] \<and>
   (8, 11) \<in> set (video_scenes toy_cv ''a.mp4'') \<and>
   scene_score (video_motion toy_cv ''a.mp4'') 8 11 < 12 * 0.1 \<and>
   scene_candidate (video_fps toy_cv ''a.mp4'' 30) (video_motion toy_cv ''a.mp4'') (8, 11)
     \<notin> set [(4, 7, 2)]"
  using highlights_pass_both_filters [OF toy_detect_a3] toy_detect_a3 toy_opened
  by (simp add: toy_video_fps toy_video_motion toy_video_scenes toy_scores
      start_sec_def end_sec_def score_def)

lemma sorted_wrt_equal_keys:
  "(\<forall>k. sorted_wrt R (filter (\<lambda>h. f h = k) xs)) \<Longrightarrow>
     sorted_wrt (\<lambda>a b. f a = f b \<longrightarrow> R a b) xs"
proof (induction xs)
  case Nil
  then show ?case by simp
next
  case (Cons x xs)
  have tail: "\<forall>k. sorted_wrt R (filter (\<lambda>h. f h = k) xs)"
  proof
    fix k
    show "sorted_wrt R (filter (\<lambda>h. f h = k) xs)"
      using Cons.prems [rule_format, of k] by (cases "f x = k") simp_all
  qed
  have head: "\<forall>y \<in> set xs. f x = f y \<longrightarrow> R x y"
    using Cons.prems [rule_format, of "f x"] by auto
  show ?case using head Cons.IH [OF tail] by simp
qed

lemma sort_by_score_desc_stable:
  "filter (\<lambda>h. score h = k) (sort_by_score_desc hs) = filter (\<lambda>h. score h = k) hs"
  using sort_key_stable [of "\<lambda>h. - score h" "- k" hs] by (simp add: sort_by_score_desc_def)

lemma sort_by_score_desc_sorted:
  "sorted_wrt (\<lambda>a b. score a \<ge> score b) (sort_by_score_desc hs)"
  using sorted_sort_key [of "\<lambda>h. - score h" hs]
  by (simp add: sort_by_score_desc_def sorted_map)

lemma sorted_wrt_positions:
  "sorted_wrt (\<lambda>x y. \<exists>a b. a < b \<and> b < length xs \<and> x = xs ! a \<and> y = xs ! b) xs"
  by (auto simp: sorted_wrt_iff_nth_less)

text \<open>
  C3: a returned list is ordered by score, highest first, and two highlights of equal
  score stand in the order of the scenes they come from: the earlier one in the list is
  the tuple of a scene that precedes the scene of the later one.
\<close>

theorem highlights_sorted_stable:
  assumes "detect_scenes_and_highlights cv vpath ml thr fb = Inr hs"
  shows "sorted_wrt (\<lambda>a b. score a \<ge> score b) hs \<and>
    (\<forall>i j. i < j \<and> j < length hs \<and> score (hs ! i) = score (hs ! j) \<longrightarrow>
       (\<exists>a b. a < b \<and> b < length (video_scenes cv vpath) \<and>
          hs ! i = scene_candidate (video_fps cv vpath fb) (video_motion cv vpath)
                     (video_scenes cv vpath ! a) \<and>
          hs ! j = scene_candidate (video_fps cv vpath fb) (video_motion cv vpath)
                     (video_scenes cv vpath ! b)))"
proof (cases "isOpened (VideoCapture cv vpath)")
  case False
  then have "hs = []" using assms detect_unopened [OF False, of ml thr fb] by simp
  then show ?thesis by simp
next
  case True
  let ?ps = "video_scenes cv vpath"
  let ?cand = "scene_candidate (video_fps cv vpath fb) (video_motion cv vpath)"
  let ?kept = "scene_kept (video_fps cv vpath fb) ml thr (video_motion cv vpath)"
  let ?R = "\<lambda>x y. \<exists>a b. a < b \<and> b < length ?ps \<and> x = ?cand (?ps ! a) \<and> y = ?cand (?ps ! b)"
  have hs: "hs = sort_by_score_desc (map ?cand (filter ?kept ?ps))"
    using detect_opened [OF True assms] by blast
  have "sorted_wrt (\<lambda>p q. ?R (?cand p) (?cand q)) ?ps"
    by (rule sorted_wrt_mono_rel [OF _ sorted_wrt_positions]) blast
  then have "sorted_wrt (\<lambda>p q. ?R (?cand p) (?cand q)) (filter ?kept ?ps)"
    by (rule sorted_wrt_filter)
  then have cands: "sorted_wrt ?R (map ?cand (filter ?kept ?ps))"
    by (simp add: sorted_wrt_map)
  have "\<forall>k. sorted_wrt ?R (filter (\<lambda>h. score h = k) hs)"
    using cands by (simp add: hs sort_by_score_desc_stable sorted_wrt_filter)
  then have "sorted_wrt (\<lambda>x y. score x = score y \<longrightarrow> ?R x y) hs"
    by (rule sorted_wrt_equal_keys)
  then have stable: "\<forall>i j. i < j \<and> j < length hs \<and> score (hs ! i) = score (hs ! j) \<longrightarrow>
      ?R (hs ! i) (hs ! j)"
    by (simp add: sorted_wrt_iff_nth_less)
  have "sorted_wrt (\<lambda>a b. score a \<ge> score b) hs"
    by (simp add: hs sort_by_score_desc_sorted)
  then show ?thesis using stable by blast
qed

theorem highlights_sorted_stable_witness:
  "detect_scenes_and_highlights toy_cv ''a.mp4'' 2 12 30 =
     Inr [(2, 4, 4), (0, 2, 2), (4, 7, 2)] \<and>
   sorted_wrt (\<lambda>a b. score a \<ge> score b) [(2, 4, 4), (0, 2, 2), (4, 7, 2)] \<and>
   score ([(2, 4, 4), (0, 2, 2), (4, 7, 2)] ! 1) = score ([(2, 4, 4), (0, 2, 2), (4, 7, 2)] ! 2) \<and>
   (\<exists>a b. a < b \<and> b < length (video_scenes toy_cv ''a.mp4'') \<and>
      [(2, 4, 4), (0, 2, 2), (4, 7, 2)] ! 1 =
        scene_candidate (video_fps toy_cv ''a.mp4'' 30) (video_motion toy_cv ''a.mp4'')
          (video_scenes toy_cv ''a.mp4'' ! a) \<and>
      [(2, 4, 4), (0, 2, 2), (4, 7, 2)] ! 2 =
        scene_candidate (video_fps toy_cv ''a.mp4'' 30) (video_motion toy_cv ''a.mp4'')
          (video_scenes toy_cv ''a.mp4'' ! b))"
proof -
  let ?hs = "[(2, 4, 4), (0, 2, 2), (4, 7, 2)] :: highlight list"
  have eq: "(1::nat) < 2 \<and> 2 < length ?hs \<and> score (?hs ! 1) = score (?hs ! 2)"
    by (simp add: score_def)
  note st = highlights_sorted_stable [OF toy_detect_a]
  show ?thesis
    using toy_detect_a eq st [THEN conjunct1] st [THEN conjunct2, rule_format, OF eq]
    by simp
qed

lemma detect_returns:
  "video_fps cv vpath fb \<noteq> 0 \<Longrightarrow>
     \<exists>hs. detect_scenes_and_highlights cv vpath ml thr fb = Inr hs"
  by (simp add: detect_scenes_and_highlights_def scene_highlights_def Let_def
      collect_highlights_eq video_fps_def)

lemma scene_pairs_apart:
  assumes "sorted bs"
  shows "sorted_wrt (\<lambda>p q. snd p \<le> fst q) (scene_pairs bs)"
proof -
  have "\<And>i j. i < j \<Longrightarrow> j < length (scene_pairs bs) \<Longrightarrow>
      snd (scene_pairs bs ! i) \<le> fst (scene_pairs bs ! j)"
  proof -
    fix i j assume ij: "i < j" "j < length (scene_pairs bs)"
    then have b: "Suc i < length bs" "Suc j < length bs" "Suc i \<le> j" "j < length bs"
      by (auto simp: length_scene_pairs)
    have "bs ! Suc i \<le> bs ! j" using assms b sorted_nth_mono [of bs "Suc i" j] by blast
    then show "snd (scene_pairs bs ! i) \<le> fst (scene_pairs bs ! j)"
      using b by (simp add: nth_scene_pairs)
  qed
  then show ?thesis by (simp add: sorted_wrt_iff_nth_less)
qed

lemma scene_pairs_bounds:
  assumes "sorted bs" and "p \<in> set (scene_pairs bs)"
  shows "fst p \<le> snd p \<and> snd p \<le> last bs"
proof -
  obtain i where i: "i < length (scene_pairs bs)" "scene_pairs bs ! i = p"
    using assms(2) by (auto simp: in_set_conv_nth)
  then have b: "Suc i < length bs" by (simp add: length_scene_pairs)
  then have p: "p = (bs ! i, bs ! Suc i)" using i nth_scene_pairs [of i bs] by simp
  have ne: "bs \<noteq> []" using b by auto
  have "bs ! i \<le> bs ! Suc i" using assms(1) b sorted_nth_mono [of bs i "Suc i"] by simp
  moreover have "bs ! Suc i \<le> bs ! (length bs - 1)"
    using assms(1) b sorted_nth_mono [of bs "Suc i" "length bs - 1"] by simp
  ultimately show ?thesis using p ne by (simp add: last_conv_nth)
qed

lemma sorted_wrt_insort_key_sym:
  assumes "\<And>a b. R a b \<Longrightarrow> R b a"
  shows "sorted_wrt R xs \<Longrightarrow> \<forall>y \<in> set xs. R x y \<Longrightarrow> sorted_wrt R (insort_key f x xs)"
  using assms by (induction xs) (auto simp: set_insort_key)

lemma sorted_wrt_sort_key_sym:
  assumes "\<And>a b. R a b \<Longrightarrow> R b a"
  shows "sorted_wrt R xs \<Longrightarrow> sorted_wrt R (sort_key f xs)"
proof (induction xs)
  case Nil
  then show ?case by simp
next
  case (Cons x xs)
  then have "sorted_wrt R (sort_key f xs)" "\<forall>y \<in> set (sort_key f xs). R x y" by auto
  then show ?case
    using sorted_wrt_insort_key_sym [of R "sort_key f xs" x f] assms
    by (simp add: sort_key_simps)
qed

text \<open>
  C10: when the frame rate the detector uses is positive (the source reports one, or the
  fallback is positive), the detector returns a list whose intervals are pairwise
  non-overlapping, whatever their order in the list, and each interval is well-formed and
  lies between 0 and the frame count divided by the frame rate.
\<close>

theorem highlights_disjoint_in_range:
  assumes "0 < video_fps cv vpath fb"
  shows "\<exists>hs. detect_scenes_and_highlights cv vpath ml thr fb = Inr hs \<and>
    (\<forall>i j. i < j \<and> j < length hs \<longrightarrow>
       end_sec (hs ! i) \<le> start_sec (hs ! j) \<or> end_sec (hs ! j) \<le> start_sec (hs ! i)) \<and>
    (\<forall>h \<in> set hs. 0 \<le> start_sec h \<and> start_sec h \<le> end_sec h \<and>
       end_sec h \<le> real (length (frames (VideoCapture cv vpath))) / video_fps cv vpath fb)"
proof -
  obtain hs where run: "detect_scenes_and_highlights cv vpath ml thr fb = Inr hs"
    using detect_returns [of cv vpath fb ml thr] assms by auto
  have "(\<forall>i j. i < j \<and> j < length hs \<longrightarrow>
       end_sec (hs ! i) \<le> start_sec (hs ! j) \<or> end_sec (hs ! j) \<le> start_sec (hs ! i)) \<and>
    (\<forall>h \<in> set hs. 0 \<le> start_sec h \<and> start_sec h \<le> end_sec h \<and>
       end_sec h \<le> real (length (frames (VideoCapture cv vpath))) / video_fps cv vpath fb)"
  proof (cases "isOpened (VideoCapture cv vpath)")
    case False
    then have "hs = []" using run detect_unopened [OF False, of ml thr fb] by simp
    then show ?thesis by simp
  next
    case True
    let ?fs = "frames (VideoCapture cv vpath)"
    let ?fps = "video_fps cv vpath fb"
    let ?ps = "video_scenes cv vpath"
    let ?cand = "scene_candidate ?fps (video_motion cv vpath)"
    let ?kept = "scene_kept ?fps ml thr (video_motion cv vpath)"
    let ?R = "\<lambda>x y. end_sec x \<le> start_sec y \<or> end_sec y \<le> start_sec x"
    have fps: "0 < ?fps" using assms by simp
    have hs: "hs = sort_by_score_desc (map ?cand (filter ?kept ?ps))"
      using detect_opened [OF True run] by blast
    note bf = boundaries_facts [of cv ?fs]
    have srt: "sorted (scene_boundaries cv ?fs)" using bf by blast
    have "sorted_wrt (\<lambda>p q. snd p \<le> fst q) ?ps"
      unfolding video_scenes_def by (rule scene_pairs_apart [OF srt])
    then have "sorted_wrt (\<lambda>p q. ?R (?cand p) (?cand q)) ?ps"
      by (rule sorted_wrt_mono_rel [rotated])
        (use fps in \<open>simp add: scene_candidate_def start_sec_def end_sec_def divide_right_mono\<close>)
    then have "sorted_wrt (\<lambda>p q. ?R (?cand p) (?cand q)) (filter ?kept ?ps)"
      by (rule sorted_wrt_filter)
    then have "sorted_wrt ?R (map ?cand (filter ?kept ?ps))"
      by (simp add: sorted_wrt_map)
    then have "sorted_wrt ?R hs"
      unfolding hs sort_by_score_desc_def by (intro sorted_wrt_sort_key_sym) auto
    then have apart: "\<forall>i j. i < j \<and> j < length hs \<longrightarrow> ?R (hs ! i) (hs ! j)"
      by (simp add: sorted_wrt_iff_nth_less)
    have range: "\<forall>h \<in> set hs. 0 \<le> start_sec h \<and> start_sec h \<le> end_sec h \<and>
         end_sec h \<le> real (length ?fs) / ?fps"
    proof
      fix h assume "h \<in> set hs"
      then obtain p where p: "p \<in> set ?ps" "h = ?cand p"
        by (auto simp: hs set_sort_by_score_desc)
      have "fst p \<le> snd p \<and> snd p \<le> length ?fs"
        using scene_pairs_bounds [OF srt, of p] p(1) bf by (simp add: video_scenes_def)
      then show "0 \<le> start_sec h \<and> start_sec h \<le> end_sec h \<and>
         end_sec h \<le> real (length ?fs) / ?fps"
        using fps p(2)
        by (simp add: scene_candidate_def start_sec_def end_sec_def divide_right_mono)
    qed
    show ?thesis using apart range by blast
  qed
  with run show ?thesis by blast
qed

theorem highlights_disjoint_in_range_witness:
  "0 < video_fps toy_cv ''a.mp4'' 30 \<and>
   detect_scenes_and_highlights toy_cv ''a.mp4'' 2 12 30 =
     Inr [(2, 4, 4), (0, 2, 2), (4, 7, 2)] \<and>
   end_sec (0, 2, 2) \<le> start_sec (2, 4, 4) \<and>
   end_sec (2, 4, 4) \<le> start_sec (4, 7, 2) \<and>
   end_sec (0, 2, 2) \<le> start_sec (4, 7, 2) \<and>
   end_sec (4, 7, 2) \<le>
     real (length (frames (VideoCapture toy_cv ''a.mp4''))) / video_fps toy_cv ''a.mp4'' 30"
proof -
  have fps: "0 < video_fps toy_cv ''a.mp4'' 30" by (simp add: toy_video_fps)
  show ?thesis
    using fps toy_detect_a highlights_disjoint_in_range [OF fps, of 2 12]
    by (simp add: toy_video_fps start_sec_def end_sec_def toy_cv_def toy_frames_def)
qed

end
